theory Spec2Isabelle
  imports Complex_Main "HOL-Library.Log_Nat"
begin

section \<open>Values carried by the transport\<close>

text \<open>
  Payloads arrive as deserialised JSON. A value of \<open>jsval\<close> is the value after parsing:
  \<open>JUndefined\<close> is what reading an absent property gives, \<open>JNum\<close> carries the value of
  the parsed number. Arrays and objects are references in JavaScript, and every inbound
  message is deserialised into fresh ones.
\<close>

datatype jsval =
    JUndefined
  | JNull
  | JBool bool
  | JNum rat
  | JStr string
  | JArr "jsval list"
  | JObj "(string \<times> jsval) list"

text \<open>Values compared by content (\<open>===\<close>, \<open>Set.has\<close>); arrays and objects are compared by reference.\<close>

fun is_primitive :: "jsval \<Rightarrow> bool" where
  "is_primitive (JArr _) = False"
| "is_primitive (JObj _) = False"
| "is_primitive _ = True"

section \<open>Double-precision arithmetic\<close>

text \<open>
  JavaScript numbers are IEEE 754 binary64 values; \<open>/\<close>, \<open>*\<close> and \<open>-\<close> return the exact
  result rounded to the nearest value with a 53-bit significand, ties to the even
  significand. \<open>dbl\<close> is that rounding on the rationals: for \<open>x \<noteq> 0\<close> it scales \<open>\<bar>x\<bar>\<close> by
  the power of two that brings it into \<open>[2^52, 2^53)\<close>, rounds to an integer and scales back.
  The exponent range is not modelled (no overflow to Infinity, no subnormal numbers): the
  quantities of this program stay far inside it.
\<close>

definition floor_log2 :: "rat \<Rightarrow> int" where
  "floor_log2 x =
     (let (a, b) = quotient_of x;
          p = int (floorlog 2 (nat a)) - int (floorlog 2 (nat b))
      in if 2 powi p \<le> x then p else p - 1)"

definition round_half_even :: "rat \<Rightarrow> int" where
  "round_half_even x =
     (let f = \<lfloor>x\<rfloor>; d = x - of_int f
      in if d < 1 / 2 then f
         else if 1 / 2 < d then f + 1
         else if even f then f else f + 1)"

definition dbl :: "rat \<Rightarrow> rat" where
  "dbl x =
     (if x = 0 then 0
      else let e = floor_log2 \<bar>x\<bar> - 52
           in sgn x * of_int (round_half_even (\<bar>x\<bar> / 2 powi e)) * 2 powi e)"

definition js_div :: "rat \<Rightarrow> rat \<Rightarrow> rat" where
  "js_div a b = dbl (a / b)"

definition js_mul :: "rat \<Rightarrow> rat \<Rightarrow> rat" where
  "js_mul a b = dbl (a * b)"

definition js_sub :: "rat \<Rightarrow> rat \<Rightarrow> rat" where
  "js_sub a b = dbl (a - b)"

text \<open>\<open>Math.round\<close>: the nearest integer, a tie going towards positive infinity.\<close>

definition Math_round :: "rat \<Rightarrow> int" where
  "Math_round x = \<lfloor>x + 1 / 2\<rfloor>"

definition Math_ceil :: "rat \<Rightarrow> int" where
  "Math_ceil x = \<lceil>x\<rceil>"

definition Math_max :: "int \<Rightarrow> int \<Rightarrow> int" where
  "Math_max a b = max a b"

section \<open>Data model\<close>

text \<open>
  \<open>currentPoll\<close> of the source:
  \<^verbatim>\<open>{ id, question, options: [{id, text, votes}], startedAt, duration, active, submissions: Set }\<close>.
  Vote counters are natural numbers (the source adds 1 to a number that starts at 0).
  \<open>startedAt\<close> is \<open>Date.now()\<close>, whole milliseconds; \<open>duration\<close> is in whole seconds.
  The \<open>Set\<close> of submissions is the list of its elements in insertion order.
\<close>

record poll_option =
  opt_id :: string
  opt_text :: jsval
  votes :: nat

record poll =
  poll_id :: string
  question :: jsval
  options :: "poll_option list"
  startedAt :: int
  duration :: int
  active :: bool
  submissions :: "jsval list"

record result_option =
  res_id :: string
  res_text :: jsval
  res_votes :: nat
  pct :: int

record results =
  results_id :: string
  results_question :: jsval
  results_options :: "result_option list"
  total :: nat

text \<open>The handle returned by \<open>setTimeout\<close>, with the delay in milliseconds it was armed for.\<close>

datatype timer = Timeout int

text \<open>The module-level variables of the server.\<close>

record state =
  currentPoll :: "poll option"
  previousPolls :: "results list"
  endTimer :: "timer option"
  teacherSocketId :: "string option"

definition init :: state where
  "init = \<lparr>currentPoll = None, previousPolls = [], endTimer = None, teacherSocketId = None\<rparr>"

section \<open>Payloads, acknowledgments and broadcasts\<close>

text \<open>
  The \<open>create-poll\<close> payload \<open>{question, options, duration?}\<close> as the handler reads it:
  \<open>payload_options\<close> is whatever \<open>payload.options\<close> holds (\<open>JUndefined\<close> when it is absent),
  \<open>payload_duration\<close> is absent or a whole number of seconds. A payload that is not an object
  is read like one without \<open>options\<close>: \<open>payload.options\<close> is \<open>undefined\<close> or the access
  itself throws, and either way a TypeError leaves \<open>createPoll\<close>. The \<open>vote\<close> payload after
  destructuring: each of the four names is bound to the property's value, \<open>JUndefined\<close>
  when absent.
\<close>

record create_payload =
  payload_question :: jsval
  payload_options :: jsval
  payload_duration :: "int option"

record vote_payload =
  pollId :: jsval
  optionId :: jsval
  studentId :: jsval
  studentName :: jsval

datatype js_error = TypeError

text \<open>The \<open>message\<close> strings of the failure acknowledgments, under the names of the error taxonomy.\<close>

definition PollInUse :: string where
  "PollInUse = ''A poll is already active.''"

definition NoActivePoll :: string where
  "NoActivePoll = ''No active poll''"

definition DuplicateVote :: string where
  "DuplicateVote = ''Already voted''"

definition InvalidOption :: string where
  "InvalidOption = ''Invalid option''"

datatype ack =
    Failure string                  \<comment> \<open>\<open>{success: false, message}\<close>\<close>
  | Success                         \<comment> \<open>\<open>{success: true}\<close>\<close>
  | SuccessPoll results             \<comment> \<open>\<open>{success: true, poll}\<close>\<close>
  | NoPoll                          \<comment> \<open>\<open>{poll: null}\<close>\<close>
  | CurrentPoll results bool int    \<comment> \<open>\<open>{poll, active, remaining}\<close>\<close>

text \<open>
  What a handler does for its caller: it returns, having passed an acknowledgment to the
  callback when the caller supplied one (\<open>cb && cb(...)\<close>), or an exception leaves it.
\<close>

datatype outcome = Returned "ack option" | Thrown js_error

definition reply :: "bool \<Rightarrow> ack \<Rightarrow> ack option" where
  "reply cb a = (if cb then Some a else None)"

datatype broadcast =
    NewPoll results
  | PollUpdate results
  | PollEnded results string
  | StudentRemoved jsval

section \<open>The functions of the server\<close>

definition digit :: "nat \<Rightarrow> char" where
  "digit n = ''0123456789'' ! (n mod 10)"

function toString :: "nat \<Rightarrow> string" where
  "toString n = (if n < 10 then [digit n] else toString (n div 10) @ [digit n])"
  by pat_completeness auto
termination
  by (relation "measure (\<lambda>n. n)") auto

definition createPoll :: "create_payload \<Rightarrow> string \<Rightarrow> int \<Rightarrow> js_error + poll" where
  "createPoll payload uuid now =
     (case payload_options payload of
        JArr ts \<Rightarrow>
          Inr \<lparr>poll_id = uuid,
               question = payload_question payload,
               options = map (\<lambda>(idx, t). \<lparr>opt_id = toString idx, opt_text = t, votes = 0\<rparr>)
                             (enumerate 0 ts),
               startedAt = now,
               duration = (case payload_duration payload of
                             None \<Rightarrow> 60
                           | Some d \<Rightarrow> if d = 0 then 60 else d),
               active = True,
               submissions = []\<rparr>
      | _ \<Rightarrow> Inl TypeError)"

definition js_pct :: "nat \<Rightarrow> nat \<Rightarrow> int" where
  "js_pct v t = (if t = 0 then 0 else Math_round (js_mul (js_div (of_nat v) (of_nat t)) 100))"

definition computeResults :: "poll \<Rightarrow> results" where
  "computeResults p =
     (let t = foldl (\<lambda>s o'. s + votes o') 0 (options p)
      in \<lparr>results_id = poll_id p,
          results_question = question p,
          results_options =
            map (\<lambda>o'. \<lparr>res_id = opt_id o', res_text = opt_text o', res_votes = votes o',
                        pct = js_pct (votes o') t\<rparr>) (options p),
          total = t\<rparr>)"

text \<open>
  \<open>Set.prototype.has\<close> and \<open>add\<close>: primitives are found by value; an array or object
  that has just been deserialised is a new reference and is never found.
\<close>

definition set_has :: "jsval list \<Rightarrow> jsval \<Rightarrow> bool" where
  "set_has xs v = (is_primitive v \<and> v \<in> set xs)"

definition set_add :: "jsval list \<Rightarrow> jsval \<Rightarrow> jsval list" where
  "set_add xs v = (if set_has xs v then xs else xs @ [v])"

text \<open>\<open>Array.prototype.find\<close>, returning the position of the element it returns.\<close>

fun find_index :: "('a \<Rightarrow> bool) \<Rightarrow> 'a list \<Rightarrow> nat option" where
  "find_index P [] = None"
| "find_index P (x # xs) = (if P x then Some 0 else map_option Suc (find_index P xs))"

definition remainingSeconds :: "state \<Rightarrow> int \<Rightarrow> int" where
  "remainingSeconds s now =
     (case currentPoll s of
        None \<Rightarrow> 0
      | Some p \<Rightarrow>
          (let elapsed = js_div (of_int (now - startedAt p)) 1000
           in Math_max 0 (Math_ceil (js_sub (of_int (duration p)) elapsed))))"

definition finishCurrentPoll :: "string \<Rightarrow> state \<Rightarrow> state \<times> broadcast list" where
  "finishCurrentPoll reason s =
     (case currentPoll s of
        None \<Rightarrow> (s, [])
      | Some p \<Rightarrow>
          (let p' = p\<lparr>active := False\<rparr>;
               unshifted = computeResults p' # previousPolls s;
               trimmed = (if 50 < length unshifted then butlast unshifted else unshifted)
           in (s\<lparr>currentPoll := None, previousPolls := trimmed, endTimer := None\<rparr>,
               [PollEnded (computeResults p') reason])))"

section \<open>The socket handlers\<close>

text \<open>
  Each handler takes the module state and returns the new state, what the caller gets and
  the events broadcast to the room, in order. \<open>cb\<close> tells whether the caller supplied an
  acknowledgment callback. \<open>uuid\<close> is the value \<open>uuidv4()\<close> returns and \<open>now\<close> the value
  \<open>Date.now()\<close> returns during the call. \<open>sid\<close> is \<open>socket.id\<close> of the connection.
\<close>

type_synonym handled = "state \<times> outcome \<times> broadcast list"

definition register_teacher :: "string \<Rightarrow> state \<Rightarrow> handled" where
  "register_teacher sid s = (s\<lparr>teacherSocketId := Some sid\<rparr>, Returned None, [])"

definition poll_active :: "state \<Rightarrow> bool" where
  "poll_active s = (case currentPoll s of None \<Rightarrow> False | Some p \<Rightarrow> active p)"

definition create_poll :: "create_payload \<Rightarrow> bool \<Rightarrow> string \<Rightarrow> int \<Rightarrow> state \<Rightarrow> handled" where
  "create_poll payload cb uuid now s =
     (if poll_active s then (s, Returned (reply cb (Failure PollInUse)), [])
      else case createPoll payload uuid now of
             Inl err \<Rightarrow> (s, Thrown err, [])
           | Inr p \<Rightarrow>
               (let s1 = s\<lparr>currentPoll := Some p\<rparr>;
                    s2 = (if endTimer s1 \<noteq> None then s1\<lparr>endTimer := None\<rparr> else s1);
                    s3 = s2\<lparr>endTimer := Some (Timeout (duration p * 1000))\<rparr>
                in (s3, Returned (reply cb (SuccessPoll (computeResults p))),
                    [NewPoll (computeResults p)])))"

definition vote :: "vote_payload \<Rightarrow> bool \<Rightarrow> state \<Rightarrow> handled" where
  "vote payload cb s =
     (case currentPoll s of
        None \<Rightarrow> (s, Returned (reply cb (Failure NoActivePoll)), [])
      | Some p \<Rightarrow>
          if \<not> active p \<or> JStr (poll_id p) \<noteq> pollId payload
          then (s, Returned (reply cb (Failure NoActivePoll)), [])
          else if set_has (submissions p) (studentId payload)
          then (s, Returned (reply cb (Failure DuplicateVote)), [])
          else case find_index (\<lambda>o'. JStr (opt_id o') = optionId payload) (options p) of
                 None \<Rightarrow> (s, Returned (reply cb (Failure InvalidOption)), [])
               | Some i \<Rightarrow>
                   (let opt = options p ! i;
                        p' = p\<lparr>options := (options p)[i := opt\<lparr>votes := votes opt + 1\<rparr>],
                               submissions := set_add (submissions p) (studentId payload)\<rparr>
                    in (s\<lparr>currentPoll := Some p'\<rparr>,
                        Returned (reply cb Success),
                        [PollUpdate (computeResults p')])))"

text \<open>
  The parameter list \<open>({ pollId, optionId, studentId, studentName }, cb)\<close>: destructuring
  \<open>undefined\<close> or \<open>null\<close> throws a TypeError before the body runs; any other value binds each
  name to the property of that name, \<open>undefined\<close> when there is none. An object is given by its
  properties (distinct names).
\<close>

fun nullish :: "jsval \<Rightarrow> bool" where
  "nullish JUndefined = True"
| "nullish JNull = True"
| "nullish _ = False"

definition property :: "jsval \<Rightarrow> string \<Rightarrow> jsval" where
  "property v k =
     (case v of
        JObj kvs \<Rightarrow> (case map_of kvs k of None \<Rightarrow> JUndefined | Some x \<Rightarrow> x)
      | _ \<Rightarrow> JUndefined)"

definition vote_fields :: "jsval \<Rightarrow> vote_payload" where
  "vote_fields raw =
     \<lparr>pollId = property raw ''pollId'', optionId = property raw ''optionId'',
      studentId = property raw ''studentId'', studentName = property raw ''studentName''\<rparr>"

definition on_vote :: "jsval \<Rightarrow> bool \<Rightarrow> state \<Rightarrow> handled" where
  "on_vote raw cb s =
     (if nullish raw then (s, Thrown TypeError, []) else vote (vote_fields raw) cb s)"

definition end_poll_now :: "bool \<Rightarrow> state \<Rightarrow> handled" where
  "end_poll_now cb s =
     (if \<not> poll_active s then (s, Returned (reply cb (Failure NoActivePoll)), [])
      else let (s', evs) = finishCurrentPoll ''manual'' s
           in (s', Returned (reply cb Success), evs))"

definition remove_student :: "jsval \<Rightarrow> bool \<Rightarrow> state \<Rightarrow> handled" where
  "remove_student sId cb s = (s, Returned (reply cb Success), [StudentRemoved sId])"

definition on_remove_student :: "jsval \<Rightarrow> bool \<Rightarrow> state \<Rightarrow> handled" where
  "on_remove_student raw cb s =
     (if nullish raw then (s, Thrown TypeError, [])
      else remove_student (property raw ''studentId'') cb s)"

definition get_current_poll :: "bool \<Rightarrow> int \<Rightarrow> state \<Rightarrow> handled" where
  "get_current_poll cb now s =
     (case currentPoll s of
        None \<Rightarrow> (s, Returned (reply cb NoPoll), [])
      | Some p \<Rightarrow>
          (s, Returned (reply cb (CurrentPoll (computeResults p) (active p) (remainingSeconds s now))),
           []))"

definition disconnect :: "string \<Rightarrow> state \<Rightarrow> handled" where
  "disconnect sid s =
     ((if Some sid = teacherSocketId s then s\<lparr>teacherSocketId := None\<rparr> else s),
      Returned None, [])"

text \<open>
  The callback given to \<open>setTimeout\<close>. It runs only while the handle in \<open>endTimer\<close> is armed:
  every path that drops the handle calls \<open>clearTimeout\<close> on it first.
\<close>

definition timer_fires :: "state \<Rightarrow> handled" where
  "timer_fires s =
     (case endTimer s of
        None \<Rightarrow> (s, Returned None, [])
      | Some _ \<Rightarrow> (let (s', evs) = finishCurrentPoll ''timeout'' s in (s', Returned None, evs)))"

section \<open>The event loop\<close>

text \<open>
  All calls and the timer callback run one at a time, each to completion. An \<open>event\<close> is
  one of them with its inputs. When a handler throws, the state stays as it was at the throw.
  The two HTTP routes only read (\<open>/previous-polls\<close> sends \<open>previousPolls\<close>) and are not events.
\<close>

datatype event =
    RegisterTeacher string
  | CreatePoll create_payload bool string int
  | Vote jsval bool
  | EndPollNow bool
  | RemoveStudent jsval bool
  | GetCurrentPoll bool int
  | Disconnect string
  | TimerFires

fun step :: "event \<Rightarrow> state \<Rightarrow> handled" where
  "step (RegisterTeacher sid) s = register_teacher sid s"
| "step (CreatePoll payload cb uuid now) s = create_poll payload cb uuid now s"
| "step (Vote raw cb) s = on_vote raw cb s"
| "step (EndPollNow cb) s = end_poll_now cb s"
| "step (RemoveStudent raw cb) s = on_remove_student raw cb s"
| "step (GetCurrentPoll cb now) s = get_current_poll cb now s"
| "step (Disconnect sid) s = disconnect sid s"
| "step TimerFires s = timer_fires s"

text \<open>Running a sequence of events: the final state and everything broadcast, in order.\<close>

fun run :: "event list \<Rightarrow> state \<Rightarrow> state \<times> broadcast list" where
  "run [] s = (s, [])"
| "run (e # es) s =
     (case step e s of (s', _, evs) \<Rightarrow> (case run es s' of (s'', evs') \<Rightarrow> (s'', evs @ evs')))"

inductive reachable :: "state \<Rightarrow> bool" where
  reachable_init: "reachable init"
| reachable_step: "reachable s \<Longrightarrow> reachable (fst (step e s))"

section \<open>Notions used in the statements\<close>

text \<open>The vote counters of the poll in the slot add up to the size of its submissions set.\<close>

definition votes_match :: "state \<Rightarrow> bool" where
  "votes_match s =
     (case currentPoll s of
        None \<Rightarrow> True
      | Some p \<Rightarrow> sum_list (map votes (options p)) = length (submissions p))"

text \<open>A poll in the slot is active.\<close>

definition slot_active :: "state \<Rightarrow> bool" where
  "slot_active s = (case currentPoll s of None \<Rightarrow> True | Some p \<Rightarrow> active p)"

text \<open>The results carried by the \<open>poll-ended\<close> broadcasts, in the order they were sent.\<close>

fun ended_results :: "broadcast list \<Rightarrow> results list" where
  "ended_results [] = []"
| "ended_results (PollEnded r reason # bs) = r # ended_results bs"
| "ended_results (b # bs) = ended_results bs"

text \<open>
  The session registry in the words of its specification: \<open>register\<close> overwrites the slot,
  \<open>clearIfMatches\<close> clears it only when it holds that identifier, nothing else touches it.
\<close>

fun registry_spec :: "event list \<Rightarrow> string option \<Rightarrow> string option" where
  "registry_spec [] slot = slot"
| "registry_spec (RegisterTeacher c # es) slot = registry_spec es (Some c)"
| "registry_spec (Disconnect c # es) slot = registry_spec es (if slot = Some c then None else slot)"
| "registry_spec (e # es) slot = registry_spec es slot"



section \<open>Example inputs\<close>

text \<open>
  The payload \<open>{question: "Q", options: ["A", "B"], duration: 1}\<close>; the poll that
  \<open>createPoll\<close> makes of it at time 0 with id \<open>p1\<close>; the state after creating it from the
  initial state; a vote payload for it; the state after student \<open>s1\<close> voted for option \<open>0\<close>.
\<close>

definition demo_payload :: create_payload where
  "demo_payload =
     \<lparr>payload_question = JStr ''Q'', payload_options = JArr [JStr ''A'', JStr ''B''],
      payload_duration = Some 1\<rparr>"

definition demo_poll :: poll where
  "demo_poll =
     \<lparr>poll_id = ''p1'', question = JStr ''Q'',
      options = [\<lparr>opt_id = ''0'', opt_text = JStr ''A'', votes = 0\<rparr>,
                 \<lparr>opt_id = ''1'', opt_text = JStr ''B'', votes = 0\<rparr>],
      startedAt = 0, duration = 1, active = True, submissions = []\<rparr>"

definition demo_created :: state where
  "demo_created = fst (create_poll demo_payload True ''p1'' 0 init)"

definition demo_vote_raw :: "string \<Rightarrow> string \<Rightarrow> jsval" where
  "demo_vote_raw opt sid =
     JObj [(''pollId'', JStr ''p1''), (''optionId'', JStr opt), (''studentId'', JStr sid),
           (''studentName'', JStr sid)]"

definition demo_vote :: "string \<Rightarrow> string \<Rightarrow> vote_payload" where
  "demo_vote opt sid =
     \<lparr>pollId = JStr ''p1'', optionId = JStr opt, studentId = JStr sid, studentName = JStr sid\<rparr>"

definition demo_voted :: state where
  "demo_voted = fst (vote (demo_vote ''0'' ''s1'') True demo_created)"

text \<open>Create a poll and end it at once, the \<open>i\<close>-th time; \<open>n\<close> such cycles; what each one archives.\<close>

definition cycle :: "nat \<Rightarrow> event list" where
  "cycle i = [CreatePoll demo_payload True (toString i) (int i), EndPollNow True]"

definition cycles :: "nat \<Rightarrow> event list" where
  "cycles n = concat (map cycle [0..<n])"

definition cycle_result :: "nat \<Rightarrow> results" where
  "cycle_result i =
     \<lparr>results_id = toString i, results_question = JStr ''Q'',
      results_options = [\<lparr>res_id = ''0'', res_text = JStr ''A'', res_votes = 0, pct = 0\<rparr>,
                         \<lparr>res_id = ''1'', res_text = JStr ''B'', res_votes = 0, pct = 0\<rparr>],
      total = 0\<rparr>"

text \<open>A poll whose options carry the given vote counts, with one submission per vote.\<close>

definition tally_poll :: "nat list \<Rightarrow> poll" where
  "tally_poll vs =
     \<lparr>poll_id = ''p1'', question = JStr ''Q'',
      options = map (\<lambda>(idx, v). \<lparr>opt_id = toString idx, opt_text = JNull, votes = v\<rparr>) (enumerate 0 vs),
      startedAt = 0, duration = 60, active = True,
      submissions = map (\<lambda>i. JNum (of_nat i)) [0..<sum_list vs]\<rparr>"

section \<open>Auxiliary facts\<close>

lemma find_index_Some: "find_index P xs = Some i \<Longrightarrow> i < length xs \<and> P (xs ! i)"
  by (induction xs arbitrary: i) (auto split: if_splits)


lemma foldl_votes: "foldl (\<lambda>s o'. s + votes o') a xs = a + sum_list (map votes xs)"
  by (induction xs arbitrary: a) auto

lemma sum_votes_bump:
  "i < length xs \<Longrightarrow>
   sum_list (map votes (xs[i := (xs ! i)\<lparr>votes := Suc (votes (xs ! i))\<rparr>]))
     = Suc (sum_list (map votes xs))"
proof (induction xs arbitrary: i)
  case Nil
  then show ?case by simp
next
  case (Cons x xs)
  then show ?case by (cases i) auto
qed

lemma length_set_add: "\<not> set_has xs v \<Longrightarrow> length (set_add xs v) = length xs + 1"
  by (simp add: set_add_def)

lemma createPoll_fresh:
  "createPoll payload uuid now = Inr p \<Longrightarrow>
   active p \<and> submissions p = [] \<and> sum_list (map votes (options p)) = 0"
  by (auto simp: createPoll_def split: jsval.splits)

lemma finish_currentPoll [simp]: "currentPoll (fst (finishCurrentPoll r s)) = None"
  by (simp add: finishCurrentPoll_def Let_def split: option.splits)

lemma vote_cases:
  obtains (rejected) "fst (vote payload cb s) = s"
  | (admitted) p i where "currentPoll s = Some p" and "active p"
      and "\<not> set_has (submissions p) (studentId payload)"
      and "i < length (options p)"
      and "fst (vote payload cb s) =
             s\<lparr>currentPoll := Some (p\<lparr>options := (options p)[i := (options p ! i)\<lparr>votes := Suc (votes (options p ! i))\<rparr>],
                                      submissions := submissions p @ [studentId payload]\<rparr>)\<rparr>"
proof (cases "currentPoll s")
  case None
  then have "fst (vote payload cb s) = s" by (simp add: vote_def)
  then show ?thesis by (rule rejected)
next
  case (Some p)
  show ?thesis
  proof (cases "find_index (\<lambda>o'. JStr (opt_id o') = optionId payload) (options p)")
    case None
    with Some have "fst (vote payload cb s) = s" by (simp add: vote_def)
    then show ?thesis by (rule rejected)
  next
    case Some': (Some i)
    then have i: "i < length (options p)" by (simp add: find_index_Some)
    show ?thesis
    proof (cases "\<not> active p \<or> JStr (poll_id p) \<noteq> pollId payload \<or> set_has (submissions p) (studentId payload)")
      case True
      with Some have "fst (vote payload cb s) = s" by (auto simp: vote_def)
      then show ?thesis by (rule rejected)
    next
      case False
      with Some Some' have "fst (vote payload cb s) =
             s\<lparr>currentPoll := Some (p\<lparr>options := (options p)[i := (options p ! i)\<lparr>votes := Suc (votes (options p ! i))\<rparr>],
                                      submissions := submissions p @ [studentId payload]\<rparr>)\<rparr>"
        by (simp add: vote_def Let_def set_add_def)
      with Some False i show ?thesis by (intro admitted[of p i]) auto
    qed
  qed
qed

lemma on_vote_cases:
  obtains (rejected) "fst (on_vote raw cb s) = s"
  | (admitted) p i v where "currentPoll s = Some p" and "active p"
      and "\<not> set_has (submissions p) v"
      and "i < length (options p)"
      and "fst (on_vote raw cb s) =
             s\<lparr>currentPoll := Some (p\<lparr>options := (options p)[i := (options p ! i)\<lparr>votes := Suc (votes (options p ! i))\<rparr>],
                                      submissions := submissions p @ [v]\<rparr>)\<rparr>"
proof (cases "nullish raw")
  case True
  then have "fst (on_vote raw cb s) = s" by (simp add: on_vote_def)
  then show ?thesis by (rule rejected)
next
  case False
  then have eq: "on_vote raw cb s = vote (vote_fields raw) cb s" by (simp add: on_vote_def)
  show ?thesis
  proof (cases rule: vote_cases [of "vote_fields raw" cb s])
    case rejected
    then show ?thesis using eq that(1) by simp
  next
    case (admitted p i)
    then show ?thesis using eq that(2) [of p "studentId (vote_fields raw)" i] by simp
  qed
qed

lemma vote_fields_demo [simp]: "vote_fields (demo_vote_raw opt sid) = demo_vote opt sid"
  by (simp add: vote_fields_def demo_vote_raw_def demo_vote_def property_def)

lemma nullish_demo [simp]: "\<not> nullish (demo_vote_raw opt sid)"
  by (simp add: demo_vote_raw_def)

lemma on_vote_demo [simp]: "on_vote (demo_vote_raw opt sid) cb s = vote (demo_vote opt sid) cb s"
  by (simp add: on_vote_def)

lemma end_poll_now_fst:
  "fst (end_poll_now cb s) = (if poll_active s then fst (finishCurrentPoll ''manual'' s) else s)"
  by (simp add: end_poll_now_def split: prod.splits)

lemma timer_fires_fst:
  "fst (timer_fires s) =
     (case endTimer s of None \<Rightarrow> s | Some t \<Rightarrow> fst (finishCurrentPoll ''timeout'' s))"
  by (simp add: timer_fires_def split: prod.splits option.splits)

lemma votes_match_finish: "votes_match (fst (finishCurrentPoll r s))"
  by (simp add: votes_match_def)

lemma votes_match_step:
  assumes inv: "votes_match s"
  shows "votes_match (fst (step e s))"
proof (cases e)
  case (CreatePoll payload cb uuid now)
  with inv show ?thesis
    by (auto simp: votes_match_def create_poll_def Let_def dest: createPoll_fresh
             split: sum.splits option.splits)
next
  case (Vote raw cb)
  show ?thesis
  proof (cases rule: on_vote_cases [of raw cb s])
    case rejected
    with inv Vote show ?thesis by simp
  next
    case (admitted p i v)
    with inv Vote show ?thesis by (simp add: votes_match_def sum_votes_bump)
  qed
next
  case (EndPollNow cb)
  with inv show ?thesis by (simp add: end_poll_now_fst votes_match_finish)
next
  case TimerFires
  with inv show ?thesis by (simp add: timer_fires_fst votes_match_finish split: option.splits)
next
  case (RegisterTeacher sid)
  with inv show ?thesis by (simp add: votes_match_def register_teacher_def)
next
  case (RemoveStudent raw cb)
  with inv show ?thesis by (simp add: on_remove_student_def remove_student_def)
next
  case (GetCurrentPoll cb now)
  with inv show ?thesis by (simp add: get_current_poll_def split: option.splits)
next
  case (Disconnect sid)
  with inv show ?thesis by (simp add: votes_match_def disconnect_def)
qed

lemma demo_created_eq:
  "demo_created =
     \<lparr>currentPoll = Some \<lparr>poll_id = ''p1'', question = JStr ''Q'',
                           options = [\<lparr>opt_id = ''0'', opt_text = JStr ''A'', votes = 0\<rparr>,
                                      \<lparr>opt_id = ''1'', opt_text = JStr ''B'', votes = 0\<rparr>],
                           startedAt = 0, duration = 1, active = True, submissions = []\<rparr>,
      previousPolls = [], endTimer = Some (Timeout 1000), teacherSocketId = None\<rparr>"
  by (simp add: demo_created_def create_poll_def poll_active_def init_def createPoll_def
        demo_payload_def enumerate_eq_zip digit_def Let_def)

lemma demo_voted_eq:
  "demo_voted =
     \<lparr>currentPoll = Some \<lparr>poll_id = ''p1'', question = JStr ''Q'',
                           options = [\<lparr>opt_id = ''0'', opt_text = JStr ''A'', votes = 1\<rparr>,
                                      \<lparr>opt_id = ''1'', opt_text = JStr ''B'', votes = 0\<rparr>],
                           startedAt = 0, duration = 1, active = True, submissions = [JStr ''s1'']\<rparr>,
      previousPolls = [], endTimer = Some (Timeout 1000), teacherSocketId = None\<rparr>"
  by (simp add: demo_voted_def demo_created_eq vote_def demo_vote_def set_has_def set_add_def Let_def)

lemma reachable_demo_created: "reachable demo_created"
  unfolding demo_created_def
  using reachable_step [OF reachable_init, of "CreatePoll demo_payload True ''p1'' 0"] by simp

lemma reachable_demo_voted: "reachable demo_voted"
  unfolding demo_voted_def
  using reachable_step [OF reachable_demo_created, of "Vote (demo_vote_raw ''0'' ''s1'') True"] by simp

lemma ended_results_append: "ended_results (xs @ ys) = ended_results xs @ ended_results ys"
  by (induction xs rule: ended_results.induct) auto

lemma take_append_take: "take n (xs @ take n ys) = take n (xs @ ys)"
  by (simp add: take_append min_def) 

lemma finish_history:
  assumes "length (previousPolls s) \<le> 50"
  shows "previousPolls (fst (finishCurrentPoll r s))
           = take 50 (rev (ended_results (snd (finishCurrentPoll r s))) @ previousPolls s)"
proof (cases "currentPoll s")
  case None
  with assms show ?thesis by (simp add: finishCurrentPoll_def)
next
  case (Some p)
  have "butlast (x # xs) = take 50 (x # xs)" if "length xs = 50" for x :: results and xs
    using that by (simp add: butlast_conv_take)
  moreover have "length (previousPolls s) = 50" if "\<not> length (previousPolls s) < 50"
    using that assms by simp
  ultimately show ?thesis
    using Some assms by (auto simp: finishCurrentPoll_def Let_def simp del: butlast.simps)
qed

lemma end_poll_now_eq:
  "end_poll_now cb s =
     (if \<not> poll_active s then (s, Returned (reply cb (Failure NoActivePoll)), [])
      else (fst (finishCurrentPoll ''manual'' s), Returned (reply cb Success),
            snd (finishCurrentPoll ''manual'' s)))"
  by (simp add: end_poll_now_def split: prod.splits)

lemma timer_fires_eq:
  "timer_fires s =
     (case endTimer s of
        None \<Rightarrow> (s, Returned None, [])
      | Some t \<Rightarrow> (fst (finishCurrentPoll ''timeout'' s), Returned None,
                   snd (finishCurrentPoll ''timeout'' s)))"
  by (simp add: timer_fires_def split: prod.splits option.splits)

lemma step_history:
  assumes "length (previousPolls s) \<le> 50"
  shows "previousPolls (fst (step e s))
           = take 50 (rev (ended_results (snd (snd (step e s)))) @ previousPolls s)"
proof (cases e)
  case (CreatePoll payload cb uuid now)
  with assms show ?thesis by (simp add: create_poll_def Let_def split: sum.splits)
next
  case (Vote raw cb)
  with assms show ?thesis by (simp add: on_vote_def vote_def Let_def split: option.splits)
next
  case (EndPollNow cb)
  with assms finish_history [OF assms, of "''manual''"] show ?thesis
    by (simp add: end_poll_now_eq del: take_append)
next
  case TimerFires
  with assms finish_history [OF assms, of "''timeout''"] show ?thesis
    by (simp add: timer_fires_eq del: take_append split: option.splits)
next
  case (RegisterTeacher sid)
  with assms show ?thesis by (simp add: register_teacher_def)
next
  case (RemoveStudent raw cb)
  with assms show ?thesis by (simp add: on_remove_student_def remove_student_def)
next
  case (GetCurrentPoll cb now)
  with assms show ?thesis by (simp add: get_current_poll_def split: option.splits)
next
  case (Disconnect sid)
  with assms show ?thesis by (simp add: disconnect_def)
qed

lemma run_history:
  "length (previousPolls s) \<le> 50 \<Longrightarrow>
   previousPolls (fst (run es s)) = take 50 (rev (ended_results (snd (run es s))) @ previousPolls s)"
proof (induction es arbitrary: s)
  case Nil
  then show ?case by simp
next
  case (Cons e es)
  obtain s' out evs where st: "step e s = (s', out, evs)" by (cases "step e s") auto
  obtain s'' evs' where rn: "run es s' = (s'', evs')" by (cases "run es s'") auto
  from step_history [OF Cons.prems, of e] st
  have h1: "previousPolls s' = take 50 (rev (ended_results evs) @ previousPolls s)"
    by (simp del: take_append)
  then have "length (previousPolls s') \<le> 50" by simp
  from Cons.IH [OF this] rn
  have "previousPolls s'' = take 50 (rev (ended_results evs') @ previousPolls s')"
    by (simp del: take_append)
  also have "\<dots> = take 50 (rev (ended_results evs') @ rev (ended_results evs) @ previousPolls s)"
    unfolding h1 by (rule take_append_take)
  finally show ?case using st rn by (simp add: ended_results_append del: take_append)
qed

lemma run_append:
  "run (xs @ ys) s = (case run xs s of (s', e1) \<Rightarrow> (case run ys s' of (s'', e2) \<Rightarrow> (s'', e1 @ e2)))"
  by (induction xs arbitrary: s) (auto split: prod.splits)

lemma trim_take:
  assumes "length h \<le> 50"
  shows "(if 50 < length (x # h) then butlast (x # h) else x # h) = take 50 (x # h)"
proof (cases "length h = 50")
  case True
  then show ?thesis by (simp add: butlast_conv_take del: butlast.simps)
next
  case False
  with assms show ?thesis by simp
qed

lemma run_cycle:
  assumes "length h \<le> 50"
  shows "run (cycle i) (init\<lparr>previousPolls := h\<rparr>)
     = (init\<lparr>previousPolls := take 50 (cycle_result i # h)\<rparr>,
        [NewPoll (cycle_result i), PollEnded (cycle_result i) ''manual''])"
proof -
  have "run (cycle i) (init\<lparr>previousPolls := h\<rparr>)
     = (init\<lparr>previousPolls := (if 50 < length (cycle_result i # h)
                                  then butlast (cycle_result i # h) else cycle_result i # h)\<rparr>,
        [NewPoll (cycle_result i), PollEnded (cycle_result i) ''manual''])"
    by (simp add: cycle_def create_poll_def poll_active_def init_def createPoll_def demo_payload_def
        enumerate_eq_zip digit_def Let_def end_poll_now_def finishCurrentPoll_def computeResults_def
        js_pct_def cycle_result_def del: butlast.simps)
  then show ?thesis by (simp only: trim_take [OF assms])
qed

lemma run_cycles:
  "run (cycles n) init
     = (init\<lparr>previousPolls := take 50 (rev (map cycle_result [0..<n]))\<rparr>,
        concat (map (\<lambda>i. [NewPoll (cycle_result i), PollEnded (cycle_result i) ''manual'']) [0..<n]))"
proof (induction n)
  case 0
  then show ?case by (simp add: cycles_def init_def)
next
  case (Suc n)
  let ?h = "rev (map cycle_result [0..<n])"
  have split: "cycles (Suc n) = cycles n @ cycle n" by (simp add: cycles_def)
  have "take 50 ([cycle_result n] @ take 50 ?h) = take 50 ([cycle_result n] @ ?h)"
    by (rule take_append_take)
  then have tk: "take 50 (cycle_result n # take 50 ?h) = take 50 (rev (map cycle_result [0..<Suc n]))"
    by simp
  have "length (take 50 ?h) \<le> 50" by simp
  from run_cycle [OF this, of n] have
    "run (cycle n) (init\<lparr>previousPolls := take 50 ?h\<rparr>)
       = (init\<lparr>previousPolls := take 50 (rev (map cycle_result [0..<Suc n]))\<rparr>,
          [NewPoll (cycle_result n), PollEnded (cycle_result n) ''manual''])"
    by (simp only: tk)
  with Suc show ?case
    unfolding split run_append by simp
qed

lemma slot_active_step:
  assumes inv: "slot_active s"
  shows "slot_active (fst (step e s))"
proof (cases e)
  case (CreatePoll payload cb uuid now)
  with inv show ?thesis
    by (auto simp: slot_active_def create_poll_def Let_def dest: createPoll_fresh
             split: sum.splits option.splits)
next
  case (Vote raw cb)
  show ?thesis
  proof (cases rule: on_vote_cases [of raw cb s])
    case rejected
    with inv Vote show ?thesis by simp
  next
    case (admitted p i v)
    with inv Vote show ?thesis by (simp add: slot_active_def)
  qed
next
  case (EndPollNow cb)
  with inv show ?thesis by (simp add: end_poll_now_fst) (simp add: slot_active_def)
next
  case TimerFires
  with inv show ?thesis by (simp add: timer_fires_fst split: option.splits) (simp add: slot_active_def)
next
  case (RegisterTeacher sid)
  with inv show ?thesis by (simp add: slot_active_def register_teacher_def)
next
  case (RemoveStudent raw cb)
  with inv show ?thesis by (simp add: on_remove_student_def remove_student_def)
next
  case (GetCurrentPoll cb now)
  with inv show ?thesis by (simp add: get_current_poll_def split: option.splits)
next
  case (Disconnect sid)
  with inv show ?thesis by (simp add: slot_active_def disconnect_def)
qed

lemma reachable_slot_active: "reachable s \<Longrightarrow> slot_active s"
proof (induction rule: reachable.induct)
  case reachable_init
  show ?case by (simp add: slot_active_def init_def)
next
  case (reachable_step s e)
  then show ?case by (simp add: slot_active_step)
qed

lemma finish_teacher [simp]: "teacherSocketId (fst (finishCurrentPoll r s)) = teacherSocketId s"
  by (simp add: finishCurrentPoll_def Let_def split: option.splits)

lemma step_teacher:
  "teacherSocketId (fst (step e s)) = registry_spec [e] (teacherSocketId s)"
proof (cases e)
  case (CreatePoll payload cb uuid now)
  then show ?thesis by (simp add: create_poll_def Let_def split: sum.splits)
next
  case (Vote raw cb)
  then show ?thesis by (simp add: on_vote_def vote_def Let_def split: option.splits)
next
  case (EndPollNow cb)
  then show ?thesis by (simp add: end_poll_now_fst)
next
  case TimerFires
  then show ?thesis by (simp add: timer_fires_fst split: option.splits)
next
  case (RegisterTeacher sid)
  then show ?thesis by (simp add: register_teacher_def)
next
  case (RemoveStudent raw cb)
  then show ?thesis by (simp add: on_remove_student_def remove_student_def)
next
  case (GetCurrentPoll cb now)
  then show ?thesis by (simp add: get_current_poll_def split: option.splits)
next
  case (Disconnect sid)
  then show ?thesis by (auto simp: disconnect_def)
qed

lemma run_Cons_fst: "fst (run (e # es) s) = fst (run es (fst (step e s)))"
  by (simp split: prod.splits)

lemma registry_spec_Cons: "registry_spec (e # es) slot = registry_spec es (registry_spec [e] slot)"
  by (cases e) simp_all

lemma run_teacher: "teacherSocketId (fst (run es s)) = registry_spec es (teacherSocketId s)"
proof (induction es arbitrary: s)
  case Nil
  show ?case by simp
next
  case (Cons e es)
  have "teacherSocketId (fst (run (e # es) s)) = registry_spec es (teacherSocketId (fst (step e s)))"
    by (simp only: run_Cons_fst Cons.IH)
  also have "\<dots> = registry_spec (e # es) (teacherSocketId s)"
    by (simp only: step_teacher registry_spec_Cons [of e es])
  finally show ?case .
qed

subsection \<open>Double rounding\<close>

lemma pw_diff: "(2::rat) powi (int m - int n) = 2 ^ m / 2 ^ n"
  by (simp add: power_int_diff)

lemma pw_Suc: "(2::rat) powi (k + 1) = 2 * 2 powi k"
  by (simp add: power_int_add)

lemma pw_pred: "(2::rat) powi (k - 1) = 2 powi k / 2"
  by (simp add: power_int_diff)

lemma floorlog_rat_bounds:
  assumes "0 < a"
  shows "(2::rat) ^ floorlog 2 (nat a) \<le> 2 * of_int a" and "of_int a < (2::rat) ^ floorlog 2 (nat a)"
proof -
  from assms have pos: "0 < nat a" by simp
  from floorlog_bounds [OF pos, of 2]
  have lo: "2 ^ (floorlog 2 (nat a) - 1) \<le> nat a" and hi: "nat a < 2 ^ floorlog 2 (nat a)" by simp_all
  have "floorlog 2 (nat a) \<noteq> 0" using pos by (simp add: floorlog_eq_zero_iff)
  then obtain k where k: "floorlog 2 (nat a) = Suc k" by (cases "floorlog 2 (nat a)") auto
  from lo k have "2 ^ k \<le> nat a" by simp
  then have "int (2 ^ k) \<le> a" using assms by linarith
  then have "(of_int (int (2 ^ k)) :: rat) \<le> of_int a" by (simp only: of_int_le_iff)
  then show "(2::rat) ^ floorlog 2 (nat a) \<le> 2 * of_int a" by (simp add: k)
  from hi have "a < int (2 ^ floorlog 2 (nat a))" using assms by linarith
  then have "(of_int a :: rat) < of_int (int (2 ^ floorlog 2 (nat a)))" by (simp only: of_int_less_iff)
  then show "of_int a < (2::rat) ^ floorlog 2 (nat a)" by simp
qed

lemma floor_log2_bounds:
  assumes "0 < x"
  shows "2 powi (floor_log2 x) \<le> x" and "x < 2 powi (floor_log2 x + 1)"
proof -
  obtain a b where q: "quotient_of x = (a, b)" by (cases "quotient_of x") auto
  then have b: "0 < b" by (rule quotient_of_denom_pos)
  from q have x: "x = of_int a / of_int b" by (rule quotient_of_div)
  with assms b have a: "0 < a" by (simp add: zero_less_divide_iff)
  let ?fa = "floorlog 2 (nat a)" and ?fb = "floorlog 2 (nat b)"
  let ?p = "int ?fa - int ?fb"
  note A = floorlog_rat_bounds [OF a] and B = floorlog_rat_bounds [OF b]
  have bpos: "(0::rat) < of_int b" using b by simp
  have "x * 2 ^ ?fb < 2 * 2 ^ ?fa"
  proof -
    have "x * 2 ^ ?fb \<le> x * (2 * of_int b)" using B(1) assms by (simp add: mult_left_mono)
    also have "\<dots> = 2 * of_int a" using bpos by (simp add: x)
    also have "\<dots> < 2 * 2 ^ ?fa" using A(2) by simp
    finally show ?thesis .
  qed
  moreover have "(2::rat) powi (?p + 1) = 2 * 2 ^ ?fa / 2 ^ ?fb"
    unfolding pw_Suc pw_diff by simp
  ultimately have up: "x < 2 powi (?p + 1)" by (simp add: pos_less_divide_eq)
  have "2 ^ ?fa < 2 * x * 2 ^ ?fb"
  proof -
    have "(2::rat) ^ ?fa \<le> 2 * of_int a" by (rule A(1))
    also have "\<dots> = 2 * x * of_int b" using bpos by (simp add: x)
    also have "\<dots> < 2 * x * 2 ^ ?fb" using B(2) assms by (simp add: mult_strict_left_mono)
    finally show ?thesis .
  qed
  moreover have "(2::rat) powi (?p - 1) = 2 ^ ?fa / (2 * 2 ^ ?fb)"
    unfolding pw_pred pw_diff by simp
  ultimately have lo: "2 powi (?p - 1) \<le> x" by (simp add: pos_divide_le_eq mult.commute mult.left_commute)
  have fl: "floor_log2 x = (if 2 powi ?p \<le> x then ?p else ?p - 1)"
    by (simp add: floor_log2_def q)
  show "2 powi (floor_log2 x) \<le> x" using lo by (simp add: fl)
  show "x < 2 powi (floor_log2 x + 1)" using up by (simp add: fl not_le)
qed

lemma pw_less_imp: "(2::rat) powi m < 2 powi n \<Longrightarrow> m < n"
proof (rule ccontr)
  assume a: "2 powi m < (2::rat) powi n" and "\<not> m < n"
  then have "n \<le> m" by simp
  then have "(2::rat) powi n \<le> 2 powi m" by (rule power_int_increasing) simp
  with a show False by simp
qed

lemma floor_log2_unique:
  assumes "2 powi k \<le> x" and "x < 2 powi (k + 1)"
  shows "floor_log2 x = k"
proof -
  have pos: "0 < x" using assms(1) by (rule less_le_trans [rotated]) simp
  note b = floor_log2_bounds [OF pos]
  have "(2::rat) powi k < 2 powi (floor_log2 x + 1)" using assms(1) b(2) by simp
  then have 1: "k < floor_log2 x + 1" by (rule pw_less_imp)
  have "(2::rat) powi floor_log2 x < 2 powi (k + 1)" using assms(2) b(1) by simp
  then have 2: "floor_log2 x < k + 1" by (rule pw_less_imp)
  from 1 2 show ?thesis by simp
qed


lemma round_half_even_err: "\<bar>of_int (round_half_even y) - y\<bar> \<le> 1 / 2"
proof -
  have "of_int \<lfloor>y\<rfloor> \<le> y" and "y < of_int \<lfloor>y\<rfloor> + 1" by linarith+
  then show ?thesis by (auto simp: round_half_even_def Let_def)
qed


lemma dbl_eq:
  assumes "2 powi (e + 52) \<le> \<bar>x\<bar>" and "\<bar>x\<bar> < 2 powi (e + 53)"
  shows "dbl x = sgn x * of_int (round_half_even (\<bar>x\<bar> / 2 powi e)) * 2 powi e"
proof -
  have "0 < \<bar>x\<bar>" using assms(1) by (rule less_le_trans [rotated]) simp
  then have nz: "x \<noteq> 0" by simp
  have "floor_log2 \<bar>x\<bar> = e + 52"
    using assms by (intro floor_log2_unique) (simp_all add: add.assoc)
  with nz show ?thesis by (simp add: dbl_def)
qed

text \<open>The significand that \<open>dbl\<close> rounds has 53 bits.\<close>

lemma dbl_significand:
  assumes "x \<noteq> 0"
  defines "e \<equiv> floor_log2 \<bar>x\<bar> - 52"
  shows "2 ^ 52 \<le> \<bar>x\<bar> / 2 powi e" and "\<bar>x\<bar> / 2 powi e < 2 ^ 53"
    and "dbl x = sgn x * of_int (round_half_even (\<bar>x\<bar> / 2 powi e)) * 2 powi e"
proof -
  have pos: "0 < \<bar>x\<bar>" using assms(1) by simp
  have p: "(0::rat) < 2 powi e" by simp
  have E: "floor_log2 \<bar>x\<bar> = e + 52" by (simp add: e_def)
  from floor_log2_bounds [OF pos] have "2 powi (e + 52) \<le> \<bar>x\<bar>" and "\<bar>x\<bar> < 2 powi (e + 52 + 1)"
    unfolding E by simp_all
  then have "2 powi e * 2 ^ 52 \<le> \<bar>x\<bar>" and "\<bar>x\<bar> < 2 powi e * 2 ^ 53"
    by (simp_all add: power_int_add)
  then show "2 ^ 52 \<le> \<bar>x\<bar> / 2 powi e" and "\<bar>x\<bar> / 2 powi e < 2 ^ 53"
    using p by (simp_all add: pos_le_divide_eq pos_divide_less_eq mult.commute)
  show "dbl x = sgn x * of_int (round_half_even (\<bar>x\<bar> / 2 powi e)) * 2 powi e"
    using assms(1) by (simp add: dbl_def e_def Let_def)
qed

lemma dbl_err: "\<bar>dbl x - x\<bar> \<le> \<bar>x\<bar> / 2 ^ 53"
proof (cases "x = 0")
  case True
  then show ?thesis by (simp add: dbl_def)
next
  case False
  define e where "e = floor_log2 \<bar>x\<bar> - 52"
  define s :: rat where "s = 2 powi e"
  define m where "m = round_half_even (\<bar>x\<bar> / s)"
  have spos: "0 < s" by (simp add: s_def)
  from False have d: "dbl x = sgn x * of_int m * s"
    by (simp add: dbl_def e_def s_def m_def Let_def)
  have "0 < \<bar>x\<bar>" using False by simp
  from floor_log2_bounds(1) [OF this] have "2 powi (e + 52) \<le> \<bar>x\<bar>" by (simp add: e_def)
  then have big: "s * 2 ^ 52 \<le> \<bar>x\<bar>" by (simp add: s_def power_int_add)
  have "dbl x - x = sgn x * s * (of_int m - \<bar>x\<bar> / s)"
    using spos by (simp add: d field_simps) (simp add: abs_sgn mult.commute)
  then have "\<bar>dbl x - x\<bar> = s * \<bar>of_int m - \<bar>x\<bar> / s\<bar>"
    using False spos by (simp add: abs_mult abs_sgn_eq)
  also have "\<dots> \<le> s * (1 / 2)"
    using spos round_half_even_err [of "\<bar>x\<bar> / s"] by (intro mult_left_mono) (simp_all add: m_def)
  also have "\<dots> \<le> \<bar>x\<bar> / 2 ^ 53" using big by (simp add: field_simps)
  finally show ?thesis .
qed



lemma js_pct_nearest:
  assumes t: "0 < t" and vt: "v \<le> t" and bound: "t \<le> 2 ^ 40"
  shows "\<bar>of_int (js_pct v t) - 100 * of_nat v / (of_nat t :: rat)\<bar> \<le> 1 / 2"
proof -
  define q :: rat where "q = of_nat v / of_nat t"
  define q1 where "q1 = dbl q"
  define y where "y = dbl (q1 * 100)"
  define r where "r = js_pct v t"
  define eps :: rat where "eps = 1 / 2 ^ 44"
  have tpos: "(0::rat) < of_nat t" using t by simp
  have q0: "0 \<le> q" and q1': "q \<le> 1" using t vt by (simp_all add: q_def)
  define u :: rat where "u = 1 / 2 ^ 53"
  have u1: "u \<le> 1" and u0: "0 \<le> u" by (simp_all add: u_def)
  have e1: "\<bar>q1 - q\<bar> \<le> u"
  proof -
    have "\<bar>q1 - q\<bar> \<le> \<bar>q\<bar> / 2 ^ 53" unfolding q1_def by (rule dbl_err)
    also have "\<dots> = \<bar>q\<bar> * u" by (simp add: u_def)
    also have "\<dots> \<le> 1 * u" using q0 q1' u0 by (intro mult_right_mono) simp_all
    finally show ?thesis by simp
  qed
  with u1 q0 q1' have q1b: "\<bar>q1\<bar> \<le> 2" by linarith
  have e2: "\<bar>y - q1 * 100\<bar> \<le> 200 * u"
  proof -
    have "\<bar>y - q1 * 100\<bar> \<le> \<bar>q1 * 100\<bar> / 2 ^ 53" unfolding y_def by (rule dbl_err)
    also have "\<dots> = (\<bar>q1\<bar> * 100) * u" by (simp add: u_def abs_mult)
    also have "\<dots> \<le> (2 * 100) * u" using q1b u0 by (intro mult_right_mono) simp_all
    finally show ?thesis by simp
  qed
  have "\<bar>y - 100 * q\<bar> = \<bar>(y - q1 * 100) + 100 * (q1 - q)\<bar>" by (simp add: algebra_simps)
  also have "\<dots> \<le> \<bar>y - q1 * 100\<bar> + \<bar>100 * (q1 - q)\<bar>" by (rule abs_triangle_ineq)
  also have "\<dots> = \<bar>y - q1 * 100\<bar> + 100 * \<bar>q1 - q\<bar>" by (simp only: abs_mult abs_numeral)
  also have "\<dots> \<le> 200 * u + 100 * u" using e1 e2 by (intro add_mono mult_left_mono) simp_all
  also have "\<dots> < eps" by (simp add: eps_def u_def)
  finally have yq: "\<bar>y - 100 * q\<bar> < eps" .
  have r: "r = \<lfloor>y + 1 / 2\<rfloor>"
    using t by (simp add: r_def js_pct_def Math_round_def js_mul_def js_div_def y_def q1_def q_def)
  have "of_int r \<le> y + 1 / 2" and "y + 1 / 2 < of_int r + 1" unfolding r by linarith+
  with yq have lo: "100 * q - 1 / 2 - eps < of_int r" and hi: "of_int r < 100 * q + 1 / 2 + eps"
    by linarith+
  have teps: "2 * of_nat t * eps \<le> 1"
  proof -
    have "(of_nat t :: rat) \<le> of_nat (2 ^ 40)" using bound by (simp only: of_nat_le_iff)
    then show ?thesis by (simp add: eps_def)
  qed
  have qt: "q * of_nat t = of_nat v" using tpos by (simp add: q_def)
  have "2 * of_nat t * of_int r < 2 * of_nat t * (100 * q + 1 / 2 + eps)"
    using hi tpos by (simp add: mult_strict_left_mono)
  also have "\<dots> = 200 * of_nat v + of_nat t + 2 * of_nat t * eps"
    using qt by (simp add: algebra_simps)
  also have "\<dots> \<le> 200 * of_nat v + of_nat t + 1" using teps by simp
  finally have "(of_int (2 * int t * r) :: rat) < of_int (200 * int v + int t + 1)" by simp
  then have H: "2 * int t * r < 200 * int v + int t + 1" by (simp only: of_int_less_iff)
  have "2 * of_nat t * (100 * q - 1 / 2 - eps) < 2 * of_nat t * of_int r"
    using lo tpos by (simp add: mult_strict_left_mono)
  moreover have "2 * of_nat t * (100 * q - 1 / 2 - eps) = 200 * of_nat v - of_nat t - 2 * of_nat t * eps"
    using qt by (simp add: algebra_simps)
  ultimately have "200 * of_nat v - of_nat t - 1 < 2 * of_nat t * (of_int r :: rat)" using teps by linarith
  then have "(of_int (200 * int v - int t - 1) :: rat) < of_int (2 * int t * r)" by simp
  then have L: "200 * int v - int t - 1 < 2 * int t * r" by (simp only: of_int_less_iff)
  from H L have "\<bar>2 * int t * r - 200 * int v\<bar> \<le> int t" by linarith
  then have "(of_int \<bar>2 * int t * r - 200 * int v\<bar> :: rat) \<le> of_int (int t)" by (simp only: of_int_le_iff)
  then have "\<bar>2 * of_nat t * of_int r - 200 * of_nat v\<bar> \<le> (of_nat t :: rat)" by simp
  moreover have "2 * of_nat t * of_int r - 200 * of_nat v = 2 * of_nat t * (of_int r - 100 * q)"
    using qt by (simp add: algebra_simps)
  ultimately have "2 * of_nat t * \<bar>of_int r - 100 * q\<bar> \<le> (of_nat t :: rat)"
    using tpos by (simp add: abs_mult)
  then have "\<bar>of_int r - 100 * q\<bar> \<le> 1 / 2" using tpos by (simp add: field_simps)
  then show ?thesis by (simp add: r_def q_def)
qed




lemma round_half_even_unique:
  assumes "\<bar>y - of_int m\<bar> < 1 / 2"
  shows "round_half_even y = m"
proof -
  have f: "of_int \<lfloor>y\<rfloor> \<le> y" "y < of_int \<lfloor>y\<rfloor> + 1" by linarith+
  from assms have m: "of_int m - 1 / 2 < y" "y < of_int m + 1 / 2" by linarith+
  have "of_int \<lfloor>y\<rfloor> < of_int m + (1::rat)" using f m by linarith
  then have "of_int \<lfloor>y\<rfloor> < (of_int (m + 1) :: rat)" by simp
  then have 1: "\<lfloor>y\<rfloor> < m + 1" by (simp only: of_int_less_iff)
  have "of_int m - (2::rat) < of_int \<lfloor>y\<rfloor>" using f m by linarith
  then have "(of_int (m - 2) :: rat) < of_int \<lfloor>y\<rfloor>" by simp
  then have 2: "m - 2 < \<lfloor>y\<rfloor>" by (simp only: of_int_less_iff)
  from 1 2 consider "\<lfloor>y\<rfloor> = m" | "\<lfloor>y\<rfloor> = m - 1" by linarith
  then show ?thesis
  proof cases
    case 1
    with m show ?thesis by (simp add: round_half_even_def Let_def)
  next
    case 2
    with m show ?thesis by (simp add: round_half_even_def Let_def) 
  qed
qed

lemma dbl_29_200: "dbl (29 / 200) = 5224175567749775 / 36028797018963968"
proof -
  have r: "round_half_even (\<bar>29 / 200\<bar> / 2 powi (- 55)) = 5224175567749775"
    by (rule round_half_even_unique) simp
  have "dbl (29 / 200)
          = sgn (29 / 200) * of_int (round_half_even (\<bar>29 / 200\<bar> / 2 powi (- 55))) * 2 powi (- 55)"
    by (rule dbl_eq) simp_all
  then show ?thesis unfolding r by simp
qed

lemma js_pct_29_200: "js_pct 29 200 = 14"
proof -
  let ?x = "5224175567749775 / 36028797018963968 * 100 :: rat"
  have r: "round_half_even (\<bar>?x\<bar> / 2 powi (- 49)) = 8162774324609023"
    by (rule round_half_even_unique) simp
  have "dbl ?x = sgn ?x * of_int (round_half_even (\<bar>?x\<bar> / 2 powi (- 49))) * 2 powi (- 49)"
    by (rule dbl_eq) simp_all
  then have "dbl ?x = 8162774324609023 / 562949953421312" unfolding r by simp
  then have "js_mul (js_div (of_nat 29) (of_nat 200)) 100 = 8162774324609023 / 562949953421312"
    by (simp add: js_mul_def js_div_def dbl_29_200)
  then show ?thesis
    by (simp add: js_pct_def Math_round_def floor_unique)
qed

lemma dbl_1_8: "dbl (1 / 8) = 1 / 8"
proof -
  have r: "round_half_even (\<bar>1 / 8\<bar> / 2 powi (- 55)) = 4503599627370496"
    by (rule round_half_even_unique) simp
  have "dbl (1 / 8) = sgn (1 / 8) * of_int (round_half_even (\<bar>1 / 8\<bar> / 2 powi (- 55))) * 2 powi (- 55)"
    by (rule dbl_eq) simp_all
  then show ?thesis unfolding r by simp
qed

lemma js_pct_1_8: "js_pct 1 8 = 13"
proof -
  let ?x = "1 / 8 * 100 :: rat"
  have r: "round_half_even (\<bar>?x\<bar> / 2 powi (- 49)) = 7036874417766400"
    by (rule round_half_even_unique) simp
  have "dbl ?x = sgn ?x * of_int (round_half_even (\<bar>?x\<bar> / 2 powi (- 49))) * 2 powi (- 49)"
    by (rule dbl_eq) simp_all
  then have "dbl ?x = 25 / 2" unfolding r by simp
  then have "js_mul (js_div (of_nat 1) (of_nat 8)) 100 = 25 / 2"
    by (simp add: js_mul_def js_div_def dbl_1_8)
  then show ?thesis
    by (simp add: js_pct_def Math_round_def floor_unique)
qed

lemma round_half_even_tie:
  assumes "y = of_int m + 1 / 2"
  shows "round_half_even y = (if even m then m else m + 1)"
proof -
  have "\<lfloor>y\<rfloor> = m" by (rule floor_unique) (simp_all add: assms)
  then show ?thesis by (simp add: round_half_even_def Let_def assms)
qed

lemma total_computeResults: "total (computeResults p) = sum_list (map votes (options p))"
  by (simp add: computeResults_def Let_def foldl_votes)

lemma options_computeResults:
  "results_options (computeResults p)
     = map (\<lambda>o'. \<lparr>res_id = opt_id o', res_text = opt_text o', res_votes = votes o',
                    pct = js_pct (votes o') (sum_list (map votes (options p)))\<rparr>) (options p)"
  by (simp add: computeResults_def Let_def foldl_votes)

section \<open>The claims\<close>

text \<open>
  C1. In every reachable state the vote counters of the poll in the slot add up to the
  number of identifiers in its submissions set, and every operation (any event, from any
  state where the equality holds) preserves the equality.
\<close>

theorem votes_equal_submissions:
  "(reachable s \<longrightarrow> votes_match s) \<and> (votes_match s' \<longrightarrow> votes_match (fst (step e s')))"
proof
  show "reachable s \<longrightarrow> votes_match s"
  proof
    assume "reachable s"
    then show "votes_match s"
    proof (induction rule: reachable.induct)
      case reachable_init
      show ?case by (simp add: votes_match_def init_def)
    next
      case (reachable_step s e)
      then show ?case by (simp add: votes_match_step)
    qed
  qed
  show "votes_match s' \<longrightarrow> votes_match (fst (step e s'))"
    by (simp add: votes_match_step)
qed

theorem votes_equal_submissions_witness:
  "reachable demo_voted
   \<and> sum_list (map votes (options (the (currentPoll demo_voted)))) = 1
   \<and> length (submissions (the (currentPoll demo_voted))) = 1
   \<and> votes_match demo_voted
   \<and> votes_match (fst (step (Vote (demo_vote_raw ''1'' ''s2'') True) demo_voted))"
  using votes_equal_submissions [of demo_voted demo_voted "Vote (demo_vote_raw ''1'' ''s2'') True"]
    reachable_demo_voted
  by (simp add: demo_voted_eq)

text \<open>
  C2. While the slot holds a poll with \<open>active = true\<close>, \<open>create-poll\<close> changes nothing (the
  poll, the history, the timer and the teacher slot are those of the state before), broadcasts
  nothing and returns normally, answering the caller's callback with the failure
  acknowledgment \<open>PollInUse\<close>; this for every payload.
\<close>

theorem create_rejected_while_active:
  assumes "currentPoll s = Some p" and "active p"
  shows "create_poll payload cb uuid now s = (s, Returned (reply cb (Failure PollInUse)), [])
         \<and> create_poll payload True uuid now s = (s, Returned (Some (Failure PollInUse)), [])"
  using assms by (simp add: create_poll_def poll_active_def reply_def)

theorem create_rejected_while_active_witness:
  "currentPoll demo_created \<noteq> None \<and> active (the (currentPoll demo_created))
   \<and> create_poll demo_payload True ''p2'' 5 demo_created
        = (demo_created, Returned (Some (Failure ''A poll is already active.'')), [])"
  using create_rejected_while_active [of demo_created "the (currentPoll demo_created)" demo_payload True "''p2''" 5]
  by (simp add: demo_created_eq PollInUse_def reply_def)






text \<open>
  C6. After any sequence of events from the initial state, the history is the results of
  the polls closed so far (as broadcast in \<open>poll-ended\<close>), most recent first, cut to its
  first 50 entries; so it never has more than 50. A close puts the closing poll's results
  in front of the history and keeps the first 50 entries: beyond the bound the last, oldest
  entry goes and the others keep their order.
\<close>

theorem history_most_recent_first_bounded:
  "previousPolls (fst (run es init)) = take 50 (rev (ended_results (snd (run es init))))
   \<and> length (previousPolls (fst (run es init))) \<le> 50
   \<and> (length (previousPolls s) \<le> 50 \<longrightarrow> currentPoll s = Some p \<longrightarrow>
        previousPolls (fst (finishCurrentPoll reason s))
          = take 50 (computeResults (p\<lparr>active := False\<rparr>) # previousPolls s))"
proof -
  have "length (previousPolls init) \<le> 50" by (simp add: init_def)
  from run_history [OF this, of es]
  have a: "previousPolls (fst (run es init)) = take 50 (rev (ended_results (snd (run es init))))"
    by (simp add: init_def)
  then have b: "length (previousPolls (fst (run es init))) \<le> 50" by simp
  have c: "previousPolls (fst (finishCurrentPoll reason s))
          = take 50 (computeResults (p\<lparr>active := False\<rparr>) # previousPolls s)"
    if "length (previousPolls s) \<le> 50" and "currentPoll s = Some p"
    using finish_history [OF that(1), of reason] that(2)
    by (simp add: finishCurrentPoll_def Let_def del: take_append)
  from a b c show ?thesis by blast
qed

theorem history_most_recent_first_bounded_witness:
  "length (previousPolls (fst (run (cycles 51) init))) = 50
   \<and> previousPolls (fst (run (cycles 51) init))
       = take 50 (rev (ended_results (snd (run (cycles 51) init))))
   \<and> previousPolls (fst (run (cycles 51) init)) ! 0 = cycle_result 50
   \<and> previousPolls (fst (run (cycles 51) init)) ! 49 = cycle_result 1
   \<and> length (previousPolls demo_created) \<le> 50 \<and> currentPoll demo_created = Some demo_poll
   \<and> previousPolls (fst (finishCurrentPoll ''manual'' demo_created))
       = [computeResults (demo_poll\<lparr>active := False\<rparr>)]"
proof -
  have h1: "length (previousPolls demo_created) \<le> 50"
    and h2: "currentPoll demo_created = Some demo_poll"
    and h3: "previousPolls demo_created = []"
    by (simp_all add: demo_created_eq demo_poll_def)
  have r: "previousPolls (fst (run (cycles 51) init)) = take 50 (rev (map cycle_result [0..<51]))"
    by (simp add: run_cycles)
  have "length (previousPolls (fst (run (cycles 51) init))) = 50"
    and "previousPolls (fst (run (cycles 51) init)) ! 0 = cycle_result 50"
    and "previousPolls (fst (run (cycles 51) init)) ! 49 = cycle_result 1"
    unfolding r by (simp_all add: rev_nth)
  with history_most_recent_first_bounded [where es = "cycles 51" and s = demo_created and p = demo_poll and reason = "''manual''"]
    h1 h2 h3
  show ?thesis by simp
qed

text \<open>
  C10. In every reachable state a poll in the slot has \<open>active = true\<close>. Closing, by
  \<open>end-poll-now\<close> on an active poll or by the timer, leaves the slot empty in the state it
  returns, so \<open>get-current-poll\<close> never answers with \<open>active = false\<close>.
\<close>

theorem slot_poll_is_active:
  "(reachable s \<longrightarrow> slot_active s)
   \<and> (poll_active s \<longrightarrow> currentPoll (fst (end_poll_now cb s)) = None)
   \<and> (endTimer s \<noteq> None \<longrightarrow> currentPoll (fst (timer_fires s)) = None)
   \<and> (reachable s \<longrightarrow> fst (snd (get_current_poll cb' now s)) \<noteq> Returned (Some (CurrentPoll r False n)))"
proof -
  have "fst (snd (get_current_poll cb' now s)) \<noteq> Returned (Some (CurrentPoll r False n))"
    if "reachable s"
    using reachable_slot_active [OF that]
    by (auto simp: get_current_poll_def slot_active_def reply_def split: option.splits)
  then show ?thesis
    by (auto simp: reachable_slot_active end_poll_now_fst timer_fires_fst)
qed

theorem slot_poll_is_active_witness:
  "reachable demo_created \<and> slot_active demo_created \<and> poll_active demo_created
   \<and> currentPoll (fst (end_poll_now True demo_created)) = None
   \<and> endTimer demo_created \<noteq> None
   \<and> currentPoll (fst (timer_fires demo_created)) = None
   \<and> fst (snd (get_current_poll True 0 demo_created))
        \<noteq> Returned (Some (CurrentPoll (computeResults demo_poll) False 1))"
proof -
  have "poll_active demo_created" and "endTimer demo_created \<noteq> None"
    by (simp_all add: demo_created_eq poll_active_def)
  with slot_poll_is_active [where s = demo_created and cb = True and cb' = True and now = 0
      and r = "computeResults demo_poll" and n = 1] reachable_demo_created
  show ?thesis by simp
qed

text \<open>
  C9. \<open>register-teacher\<close> puts the connection's identifier in the teacher slot whatever
  it held; \<open>disconnect\<close> empties the slot exactly when it holds the disconnecting
  connection's identifier, so the disconnect of a connection that was overwritten by a later
  registrant leaves the later registrant in the slot. Over any sequence of events the slot
  follows the registry specification (no other event changes it); the slot holds at most
  one identifier by its type.
\<close>

theorem teacher_slot_last_registrant:
  "teacherSocketId (fst (register_teacher sid s)) = Some sid
   \<and> teacherSocketId (fst (disconnect sid s))
       = (if teacherSocketId s = Some sid then None else teacherSocketId s)
   \<and> (sid' \<noteq> sid \<longrightarrow>
        teacherSocketId (fst (disconnect sid (fst (register_teacher sid' (fst (register_teacher sid s))))))
          = Some sid')
   \<and> teacherSocketId (fst (run es s)) = registry_spec es (teacherSocketId s)"
  by (auto simp: register_teacher_def disconnect_def run_teacher)

theorem teacher_slot_last_registrant_witness:
  "''sock2'' \<noteq> ''sock1''
   \<and> teacherSocketId (fst (register_teacher ''sock1'' init)) = Some ''sock1''
   \<and> teacherSocketId (fst (disconnect ''sock1'' (fst (register_teacher ''sock1'' init)))) = None
   \<and> teacherSocketId (fst (disconnect ''sock1''
        (fst (register_teacher ''sock2'' (fst (register_teacher ''sock1'' init)))))) = Some ''sock2''"
  using teacher_slot_last_registrant [where sid = "''sock1''" and sid' = "''sock2''" and s = init and es = "[]"]
    teacher_slot_last_registrant [where sid = "''sock1''" and sid' = "''sock2''" and s = "fst (register_teacher ''sock1'' init)" and es = "[]"]
  by simp

text \<open>
  C5, as the code has it. The results carry every option with its id, text and counter,
  and \<open>total\<close> is the sum of the counters. With \<open>total = 0\<close>, as for a poll that has just
  been created, every \<open>pct\<close> is 0. With \<open>0 < total\<close> (and \<open>total\<close> at most \<open>2^40\<close>) \<open>pct\<close> is
  an integer nearest to \<open>100 * votes / total\<close>: it is within one half of it. At an exact
  half the double-precision product decides which of the two neighbours is returned.
\<close>

theorem results_total_and_nearest_pct:
  "total (computeResults p) = sum_list (map votes (options p))
   \<and> map (\<lambda>r. (res_id r, res_text r, res_votes r)) (results_options (computeResults p))
       = map (\<lambda>o'. (opt_id o', opt_text o', votes o')) (options p)
   \<and> (total (computeResults p) = 0 \<longrightarrow> (\<forall>r \<in> set (results_options (computeResults p)). pct r = 0))
   \<and> (0 < total (computeResults p) \<longrightarrow> total (computeResults p) \<le> 2 ^ 40 \<longrightarrow>
        (\<forall>r \<in> set (results_options (computeResults p)).
           \<bar>of_int (pct r) - 100 * of_nat (res_votes r) / of_nat (total (computeResults p))\<bar>
             \<le> (1 / 2 :: rat)))
   \<and> (createPoll payload uuid now = Inr p \<longrightarrow>
        total (computeResults p) = 0 \<and> (\<forall>r \<in> set (results_options (computeResults p)). pct r = 0))"
proof -
  let ?t = "sum_list (map votes (options p))"
  have zero: "\<forall>r \<in> set (results_options (computeResults p)). pct r = 0" if "?t = 0"
    using that by (auto simp: options_computeResults js_pct_def)
  have near: "\<bar>of_int (pct r) - 100 * of_nat (res_votes r) / of_nat ?t\<bar> \<le> (1 / 2 :: rat)"
    if "0 < ?t" and "?t \<le> 2 ^ 40" and "r \<in> set (results_options (computeResults p))" for r
  proof -
    from that(3) obtain o' where o: "o' \<in> set (options p)"
      and r: "pct r = js_pct (votes o') ?t" "res_votes r = votes o'"
      by (auto simp: options_computeResults)
    from o have "votes o' \<le> ?t" by (simp add: member_le_sum_list)
    from js_pct_nearest [OF that(1) this that(2)] show ?thesis by (simp add: r)
  qed
  have fresh: "?t = 0" if "createPoll payload uuid now = Inr p"
    using createPoll_fresh [OF that] by simp
  show ?thesis
    using zero near fresh
    by (simp add: total_computeResults) (simp add: options_computeResults comp_def)
qed

theorem results_total_and_nearest_pct_witness:
  "total (computeResults (tally_poll [3, 1, 0])) = 4
   \<and> map pct (results_options (computeResults (tally_poll [3, 1, 0]))) = [75, 25, 0]
   \<and> createPoll demo_payload ''p1'' 0 = Inr demo_poll
   \<and> total (computeResults demo_poll) = 0
   \<and> map pct (results_options (computeResults demo_poll)) = [0, 0]"
proof -
  let ?p = "tally_poll [3, 1, 0]"
  have tp: "sum_list (map votes (options ?p)) = 4"
    by (simp add: tally_poll_def enumerate_eq_zip)
  have ro: "results_options (computeResults ?p)
      = [\<lparr>res_id = ''0'', res_text = JNull, res_votes = 3, pct = js_pct 3 4\<rparr>,
         \<lparr>res_id = ''1'', res_text = JNull, res_votes = 1, pct = js_pct 1 4\<rparr>,
         \<lparr>res_id = ''2'', res_text = JNull, res_votes = 0, pct = js_pct 0 4\<rparr>]"
    by (simp add: options_computeResults tally_poll_def enumerate_eq_zip digit_def upt_rec)
  have cp: "createPoll demo_payload ''p1'' 0 = Inr demo_poll"
    by (simp add: createPoll_def demo_payload_def demo_poll_def enumerate_eq_zip digit_def)
  note T = results_total_and_nearest_pct [where p = ?p and payload = demo_payload and uuid = "''p1''" and now = 0]
  have t4: "total (computeResults ?p) = 4" using T [THEN conjunct1] tp by (simp only:)
  have pos: "0 < total (computeResults ?p)" and le: "total (computeResults ?p) \<le> 2 ^ 40"
    unfolding t4 by simp_all
  note near = T [THEN conjunct2, THEN conjunct2, THEN conjunct2, THEN conjunct1, rule_format, OF pos le]
  have "\<bar>of_int (js_pct 3 4) - (75::rat)\<bar> \<le> 1 / 2"
    using near [of "\<lparr>res_id = ''0'', res_text = JNull, res_votes = 3, pct = js_pct 3 4\<rparr>"]
    unfolding ro t4 by simp
  moreover have "\<bar>of_int (js_pct 1 4) - (25::rat)\<bar> \<le> 1 / 2"
    using near [of "\<lparr>res_id = ''1'', res_text = JNull, res_votes = 1, pct = js_pct 1 4\<rparr>"]
    unfolding ro t4 by simp
  moreover have "\<bar>of_int (js_pct 0 4) - (0::rat)\<bar> \<le> 1 / 2"
    using near [of "\<lparr>res_id = ''2'', res_text = JNull, res_votes = 0, pct = js_pct 0 4\<rparr>"]
    unfolding ro t4 by simp
  ultimately have "\<bar>of_int (js_pct 3 4) - (75::rat)\<bar> \<le> 1 / 2"
    and "\<bar>of_int (js_pct 1 4) - (25::rat)\<bar> \<le> 1 / 2"
    and "\<bar>of_int (js_pct 0 4) - (0::rat)\<bar> \<le> 1 / 2" by blast+
  then have "\<bar>of_int (js_pct 3 4 - 75) :: rat\<bar> < of_int 1" and "\<bar>of_int (js_pct 1 4 - 25) :: rat\<bar> < of_int 1"
    and "\<bar>of_int (js_pct 0 4) :: rat\<bar> < of_int 1"
    by simp_all
  then have "\<bar>js_pct 3 4 - 75\<bar> < 1" and "\<bar>js_pct 1 4 - 25\<bar> < 1" and "\<bar>js_pct 0 4\<bar> < 1"
    by (simp_all only: of_int_abs [symmetric] of_int_less_iff)
  then have v: "js_pct 3 4 = 75" "js_pct 1 4 = 25" "js_pct 0 4 = 0" by simp_all
  note D = results_total_and_nearest_pct [where p = demo_poll and payload = demo_payload and uuid = "''p1''" and now = 0]
  note D0 = D [THEN conjunct2, THEN conjunct2, THEN conjunct2, THEN conjunct2, THEN mp, OF cp]
  have ro2: "results_options (computeResults demo_poll)
      = [\<lparr>res_id = ''0'', res_text = JStr ''A'', res_votes = 0, pct = js_pct 0 0\<rparr>,
         \<lparr>res_id = ''1'', res_text = JStr ''B'', res_votes = 0, pct = js_pct 0 0\<rparr>]"
    by (simp add: options_computeResults demo_poll_def)
  have "total (computeResults demo_poll) = 0" using D0 by (rule conjunct1)
  moreover have "map pct (results_options (computeResults demo_poll)) = [0, 0]"
    using D0 [THEN conjunct2] unfolding ro2 by simp
  moreover have "map pct (results_options (computeResults ?p)) = [75, 25, 0]"
    unfolding ro using v by simp
  ultimately show ?thesis using t4 cp by blast
qed

text \<open>
  C5 as stated fails: \<open>pct\<close> is not \<open>round(votes / total * 100)\<close> for a rounding that
  breaks ties upwards, nor for one that breaks them to even. 29 votes of 200 are 14.5
  percent and the code returns 14; 1 vote of 8 is 12.5 percent and the code returns 13.
\<close>

theorem pct_follows_no_tie_rule:
  "pct (results_options (computeResults (tally_poll [29, 171])) ! 0) = 14
   \<and> round (of_nat 29 / of_nat 200 * 100 :: rat) = 15
   \<and> pct (results_options (computeResults (tally_poll [1, 7])) ! 0) = 13
   \<and> round_half_even (of_nat 1 / of_nat 8 * 100 :: rat) = 12"
proof -
  have "round_half_even (of_nat 1 / of_nat 8 * 100 :: rat) = 12"
    using round_half_even_tie [of "of_nat 1 / of_nat 8 * 100" 12] by simp
  moreover have "round (of_nat 29 / of_nat 200 * 100 :: rat) = 15"
    by (simp add: round_def floor_unique)
  moreover have "js_pct (Suc 0) 8 = 13" using js_pct_1_8 by simp
  ultimately show ?thesis
    by (simp add: options_computeResults tally_poll_def enumerate_eq_zip js_pct_29_200)
qed






end
